theory Spec2Isabelle
  imports
    Main
    "HOL-Library.Char_ord"
    "HOL-Library.List_Lexorder"
    "HOL-Library.Product_Lexorder"
    "HOL-Library.Multiset"
begin

section \<open>Request values and their coercions\<close>

text \<open>
  A field of a JSON request body or of a query string, as the handlers of
  \<^verbatim>\<open>server.js\<close> see it. Numbers are the integer-valued ones; strings are
  sequences of ASCII characters.
\<close>

datatype jsval = JUndefined | JNull | JBool bool | JNum int | JStr string

text \<open>Truthiness, as used by \<^verbatim>\<open>!session_id\<close> and \<^verbatim>\<open>format && ...\<close>.\<close>

fun truthy :: "jsval \<Rightarrow> bool" where
  "truthy JUndefined = False"
| "truthy JNull = False"
| "truthy (JBool b) = b"
| "truthy (JNum n) = (n \<noteq> 0)"
| "truthy (JStr s) = (s \<noteq> [])"

definition digit_char :: "nat \<Rightarrow> char" where
  "digit_char d = char_of (48 + d)"

fun digits :: "nat \<Rightarrow> string" where
  "digits n = (if n < 10 then [digit_char n] else digits (n div 10) @ [digit_char (n mod 10)])"

declare digits.simps [simp del]

text \<open>\<^verbatim>\<open>String(n)\<close> of an integer: its decimal numeral, with a minus sign below zero.\<close>

definition String_int :: "int \<Rightarrow> string" where
  "String_int n = (if n < 0 then CHR ''-'' # digits (nat (- n)) else digits (nat n))"

fun String :: "jsval \<Rightarrow> string" where
  "String JUndefined = ''undefined''"
| "String JNull = ''null''"
| "String (JBool b) = (if b then ''true'' else ''false'')"
| "String (JNum n) = String_int n"
| "String (JStr s) = s"

definition is_ws :: "char \<Rightarrow> bool" where
  "is_ws c = ((of_char c :: nat) \<in> set [9, 10, 11, 12, 13, 32])"

definition is_digit :: "char \<Rightarrow> bool" where
  "is_digit c = (48 \<le> (of_char c :: nat) \<and> (of_char c :: nat) \<le> 57)"

definition digit_val :: "char \<Rightarrow> nat" where
  "digit_val c = of_char c - 48"

definition digits_value :: "string \<Rightarrow> nat" where
  "digits_value z = foldl (\<lambda>acc c. 10 * acc + digit_val c) 0 z"

text \<open>
  \<^verbatim>\<open>parseInt(s, 10)\<close> on a string: leading white space is skipped, one sign is
  read, then the longest run of decimal digits; \<open>None\<close> is \<^verbatim>\<open>NaN\<close>.
\<close>

definition parseInt_str :: "string \<Rightarrow> int option" where
  "parseInt_str s =
     (let S = dropWhile is_ws s;
          neg = (case S of [] \<Rightarrow> False | c # _ \<Rightarrow> c = CHR ''-'');
          S' = (case S of [] \<Rightarrow> []
                | c # cs \<Rightarrow> if c = CHR ''-'' \<or> c = CHR ''+'' then cs else S);
          Z = takeWhile is_digit S'
      in if Z = [] then None
         else Some (if neg then - int (digits_value Z) else int (digits_value Z)))"

definition parseInt :: "jsval \<Rightarrow> int option" where
  "parseInt v = parseInt_str (String v)"

definition lower_char :: "char \<Rightarrow> char" where
  "lower_char c =
     (if 65 \<le> (of_char c :: nat) \<and> (of_char c :: nat) \<le> 90
      then char_of ((of_char c :: nat) + 32) else c)"

definition toLowerCase :: "string \<Rightarrow> string" where
  "toLowerCase s = map lower_char s"

section \<open>The entity store\<close>

text \<open>
  The tables of \<^verbatim>\<open>schema.sql\<close>, each a list of rows. A calendar date is
  (year, month, day) under the lexicographic order; a timestamp is a number. Ids are
  integers without a bound, and a statement whose parameters are integers never makes
  the store raise; \<^verbatim>\<open>ORDER BY\<close> on a text column is the byte-wise
  lexicographic order.
\<close>

type_synonym date = "nat \<times> nat \<times> nat"
type_synonym timestamp = nat

record class_row =
  c_id :: int
  c_name :: string
  c_description :: "string option"

record student_row =
  st_id :: int
  st_name :: string
  st_roll_number :: "string option"
  st_class_id :: int

record session_row =
  sess_id :: int
  sess_class_id :: int
  sess_date :: date
  sess_topic :: "string option"

record attendance_row =
  a_id :: int
  a_session_id :: int
  a_student_id :: int
  a_status :: string
  a_marked_at :: timestamp

record store =
  classes :: "class_row list"
  students :: "student_row list"
  sessions :: "session_row list"
  attendance :: "attendance_row list"
  attendance_id_seq :: int

text \<open>The principal that \<^verbatim>\<open>createSession\<close> stores for a token.\<close>

record user =
  u_id :: int
  u_username :: string
  u_role :: string
  u_class_id :: "int option"
  u_student_id :: "int option"

text \<open>An HTTP failure: status code and error message.\<close>

type_synonym failure = "nat \<times> string"

section \<open>Marking attendance\<close>

text \<open>An element of \<^verbatim>\<open>records\<close>: an object whose two fields may be undefined.\<close>

record raw_record =
  r_student_id :: jsval
  r_status :: jsval

definition validStatuses :: "string list" where
  "validStatuses = [''present'', ''absent'']"

definition valid_id :: "int option \<Rightarrow> bool" where
  "valid_id p = (case p of None \<Rightarrow> False | Some n \<Rightarrow> 0 < n)"

text \<open>\<^verbatim>\<open>records.map(r => parseInt(r.student_id, 10)).filter(id => !isNaN(id) && id > 0)\<close>\<close>

definition studentIds_of :: "raw_record list \<Rightarrow> int list" where
  "studentIds_of records =
     map the (filter valid_id (map (\<lambda>r. parseInt (r_student_id r)) records))"

definition status_ok :: "raw_record \<Rightarrow> bool" where
  "status_ok r = (toLowerCase (String (r_status r)) \<in> set validStatuses)"

definition invalidRecords_of :: "raw_record list \<Rightarrow> raw_record list" where
  "invalidRecords_of records = filter (\<lambda>r. \<not> status_ok r) records"

text \<open>\<^verbatim>\<open>SELECT id FROM students WHERE id IN (...) AND class_id = ...\<close>\<close>

definition checkResult :: "store \<Rightarrow> int list \<Rightarrow> int \<Rightarrow> int list" where
  "checkResult db studentIds sessionClassId =
     map st_id (filter (\<lambda>st. st_id st \<in> set studentIds \<and> st_class_id st = sessionClassId)
                  (students db))"

definition validRecords_of :: "raw_record list \<Rightarrow> raw_record list" where
  "validRecords_of records =
     filter (\<lambda>rec. valid_id (parseInt (r_student_id rec)) \<and> status_ok rec) records"

text \<open>
  \<^verbatim>\<open>INSERT ... ON CONFLICT(session_id, student_id) DO UPDATE SET status = EXCLUDED.status\<close>:
  a row with the key keeps its id and \<open>marked_at\<close> and takes the new status; without one,
  a row stamped with the current time is added. The id sequence advances either way.
\<close>

definition same_key :: "int \<Rightarrow> int \<Rightarrow> attendance_row \<Rightarrow> bool" where
  "same_key sid stid a = (a_session_id a = sid \<and> a_student_id a = stid)"

definition upsert :: "timestamp \<Rightarrow> int \<Rightarrow> store \<Rightarrow> int \<times> string \<Rightarrow> store" where
  "upsert now sid db p =
     (let stid = fst p; status = snd p; nid = attendance_id_seq db + 1 in
      if \<exists>a \<in> set (attendance db). same_key sid stid a
      then db\<lparr>attendance :=
                 map (\<lambda>a. if same_key sid stid a then a\<lparr>a_status := status\<rparr> else a)
                   (attendance db),
               attendance_id_seq := nid\<rparr>
      else db\<lparr>attendance := attendance db @
                 [\<lparr>a_id = nid, a_session_id = sid, a_student_id = stid,
                   a_status = status, a_marked_at = now\<rparr>],
               attendance_id_seq := nid\<rparr>)"

definition upsert_params :: "raw_record \<Rightarrow> int \<times> string" where
  "upsert_params rec = (the (parseInt (r_student_id rec)), toLowerCase (String (r_status rec)))"

text \<open>
  The handler of \<^verbatim>\<open>POST /api/attendance\<close> behind \<^verbatim>\<open>requireAuth\<close> and
  \<^verbatim>\<open>requireRole('teacher')\<close>. \<open>records = None\<close> is a body whose \<^verbatim>\<open>records\<close>
  is not an array. The result is the response and the store after the call: every
  \<^verbatim>\<open>ROLLBACK\<close> path gives back the store as it was at \<^verbatim>\<open>BEGIN\<close>.
\<close>

definition commitAttendance ::
  "user option \<Rightarrow> jsval \<Rightarrow> raw_record list option \<Rightarrow> timestamp \<Rightarrow> store
     \<Rightarrow> (nat \<times> string) \<times> store" where
  \<open>commitAttendance req_user session_id records_opt now db =
     (case req_user of
        None \<Rightarrow> ((401, ''Unauthorized''), db)
      | Some u \<Rightarrow>
        if u_role u \<noteq> ''teacher'' then ((403, ''Forbidden''), db)
        else
        (case records_opt of
           None \<Rightarrow> ((400, ''session_id and an array of records are required''), db)
         | Some records \<Rightarrow>
           if \<not> truthy session_id \<or> records = []
           then ((400, ''session_id and an array of records are required''), db)
           else
           (case parseInt session_id of
              None \<Rightarrow> ((400, ''Invalid session_id''), db)
            | Some sessionIdInt \<Rightarrow>
              if sessionIdInt \<le> 0 then ((400, ''Invalid session_id''), db)
              else
              (case filter (\<lambda>s. sess_id s = sessionIdInt) (sessions db) of
                 [] \<Rightarrow> ((400, ''Invalid session_id''), db)
               | sess # _ \<Rightarrow>
                 (let sessionClassId = sess_class_id sess;
                      studentIds = studentIds_of records
                  in if studentIds = []
                     then ((400, ''No valid student_ids provided''), db)
                     else if invalidRecords_of records \<noteq> []
                     then ((400, ''Invalid status values. Must be "present" or "absent"''), db)
                     else if length (checkResult db studentIds sessionClassId)
                               \<noteq> length studentIds
                     then ((400, ''Some students do not belong to this session's class''), db)
                     else
                     (let validRecords = validRecords_of records
                      in if validRecords = []
                         then ((400, ''No valid records to save''), db)
                         else ((201, ''Attendance saved successfully''),
                               foldl (upsert now sessionIdInt) db
                                 (map upsert_params validRecords))))))))\<close>

section \<open>Queries\<close>

text \<open>The relational operators the report queries are built from.\<close>

definition inner_join :: "('l \<Rightarrow> 'r \<Rightarrow> bool) \<Rightarrow> 'l list \<Rightarrow> 'r list \<Rightarrow> ('l \<times> 'r) list" where
  "inner_join on ls rs = concat (map (\<lambda>l. map (Pair l) (filter (on l) rs)) ls)"

definition left_rows :: "('l \<Rightarrow> 'r \<Rightarrow> bool) \<Rightarrow> 'r list \<Rightarrow> 'l \<Rightarrow> ('l \<times> 'r option) list" where
  "left_rows on rs l =
     (case filter (on l) rs of [] \<Rightarrow> [(l, None)] | m # ms \<Rightarrow> map (\<lambda>r. (l, Some r)) (m # ms))"

definition left_join ::
  "('l \<Rightarrow> 'r \<Rightarrow> bool) \<Rightarrow> 'l list \<Rightarrow> 'r list \<Rightarrow> ('l \<times> 'r option) list" where
  "left_join on ls rs = concat (map (left_rows on rs) ls)"

definition group_by :: "('a \<Rightarrow> 'k) \<Rightarrow> 'a list \<Rightarrow> ('k \<times> 'a list) list" where
  "group_by key xs = map (\<lambda>k. (k, filter (\<lambda>x. key x = k) xs)) (remdups (map key xs))"

text \<open>\<^verbatim>\<open>COUNT(col)\<close> counts the rows where the column is not null,
  \<^verbatim>\<open>COUNT(DISTINCT col)\<close> its distinct values.\<close>

definition count_col :: "'a option list \<Rightarrow> int" where
  "count_col vs = int (length (filter (\<lambda>v. v \<noteq> None) vs))"

definition count_distinct :: "'a option list \<Rightarrow> int" where
  "count_distinct vs = int (length (remdups (filter (\<lambda>v. v \<noteq> None) vs)))"

text \<open>\<^verbatim>\<open>ORDER BY\<close>: a stable insertion sort under the given order.\<close>

fun insert_by :: "('a \<Rightarrow> 'a \<Rightarrow> bool) \<Rightarrow> 'a \<Rightarrow> 'a list \<Rightarrow> 'a list" where
  "insert_by le x [] = [x]"
| "insert_by le x (y # ys) = (if le x y then x # y # ys else y # insert_by le x ys)"

definition order_by :: "('a \<Rightarrow> 'a \<Rightarrow> bool) \<Rightarrow> 'a list \<Rightarrow> 'a list" where
  "order_by le xs = foldr (insert_by le) xs []"

text \<open>
  A text parameter compared with an \<^verbatim>\<open>INTEGER\<close> column is read by the store as a
  decimal integer (white space around it allowed); on anything else the store raises.
\<close>

definition pg_integer :: "string \<Rightarrow> int option" where
  "pg_integer s =
     (let t = rev (dropWhile is_ws (rev (dropWhile is_ws s)));
          neg = (case t of [] \<Rightarrow> False | c # _ \<Rightarrow> c = CHR ''-'');
          body = (case t of [] \<Rightarrow> []
                  | c # cs \<Rightarrow> if c = CHR ''-'' \<or> c = CHR ''+'' then cs else t)
      in if body \<noteq> [] \<and> list_all is_digit body
         then Some (if neg then - int (digits_value body) else int (digits_value body))
         else None)"

section \<open>Reports\<close>

record report_row =
  rr_status :: string
  rr_marked_at :: timestamp
  rr_session_id :: int
  rr_date :: date
  rr_topic :: "string option"
  rr_class_id :: int
  rr_class_name :: string

text \<open>\<^verbatim>\<open>ORDER BY sess.date DESC, sess.id DESC\<close>\<close>

definition date_id_desc :: "report_row \<Rightarrow> report_row \<Rightarrow> bool" where
  "date_id_desc r1 r2 =
     (rr_date r2 < rr_date r1 \<or> (rr_date r1 = rr_date r2 \<and> rr_session_id r2 \<le> rr_session_id r1))"

text \<open>The query of \<^verbatim>\<open>runQuery\<close> in both student report handlers.\<close>

definition studentReport_rows :: "store \<Rightarrow> int \<Rightarrow> report_row list" where
  "studentReport_rows db studentId =
     map (\<lambda>((a, sess), c).
            \<lparr>rr_status = a_status a, rr_marked_at = a_marked_at a,
             rr_session_id = sess_id sess, rr_date = sess_date sess,
             rr_topic = sess_topic sess, rr_class_id = c_id c, rr_class_name = c_name c\<rparr>)
       (filter (\<lambda>((a, sess), c). a_student_id a = studentId)
          (inner_join (\<lambda>(a, sess) c. sess_class_id sess = c_id c)
             (inner_join (\<lambda>a sess. a_session_id a = sess_id sess) (attendance db) (sessions db))
             (classes db)))"

definition studentReport :: "store \<Rightarrow> int \<Rightarrow> report_row list" where
  "studentReport db studentId = order_by date_id_desc (studentReport_rows db studentId)"

definition user_student_id :: "user \<Rightarrow> jsval" where
  "user_student_id u = (case u_student_id u of None \<Rightarrow> JNull | Some n \<Rightarrow> JNum n)"

text \<open>\<^verbatim>\<open>GET /api/reports/by-student\<close>\<close>

definition reportByStudent :: "user option \<Rightarrow> jsval \<Rightarrow> store \<Rightarrow> failure + report_row list" where
  "reportByStudent req_user student_id db =
     (case req_user of
        None \<Rightarrow> Inl (401, ''Unauthorized'')
      | Some u \<Rightarrow>
        if \<not> truthy student_id then Inl (400, ''student_id is required'')
        else
        (case parseInt student_id of
           None \<Rightarrow> Inl (400, ''Invalid student_id'')
         | Some studentIdInt \<Rightarrow>
           if studentIdInt \<le> 0 then Inl (400, ''Invalid student_id'')
           else if u_role u = ''admin'' then Inr (studentReport db studentIdInt)
           else if u_role u = ''student'' then
             (if \<not> truthy (user_student_id u)
                 \<or> String (user_student_id u) \<noteq> String (JNum studentIdInt)
              then Inl (403, ''Forbidden: You can only view your own attendance'')
              else Inr (studentReport db studentIdInt))
           else if u_role u = ''teacher'' then Inr (studentReport db studentIdInt)
           else Inl (403, ''Forbidden'')))"

text \<open>
  What an export handler hands to the formatter: the rows and the file name (PDF) or
  label (CSV).
\<close>

datatype 'r export = SendCsv "'r list" string | SendPdf "'r list" string

definition format_param :: "jsval \<Rightarrow> jsval" where
  "format_param f = (if f = JUndefined then JStr ''csv'' else f)"

definition exportStudentQuery :: "store \<Rightarrow> jsval \<Rightarrow> jsval \<Rightarrow> failure + report_row export" where
  "exportStudentQuery db student_id format =
     (case pg_integer (String student_id) of
        None \<Rightarrow> Inl (500, ''Database error'')
      | Some n \<Rightarrow>
        if format = JStr ''pdf''
        then Inr (SendPdf (studentReport db n) (''student-'' @ String student_id @ ''-report.pdf''))
        else Inr (SendCsv (studentReport db n) (''student-'' @ String student_id @ ''-report'')))"

text \<open>\<^verbatim>\<open>GET /api/reports/by-student/export\<close>\<close>

definition exportByStudent ::
  "user option \<Rightarrow> jsval \<Rightarrow> jsval \<Rightarrow> store \<Rightarrow> failure + report_row export" where
  "exportByStudent req_user student_id format_q db =
     (let format = format_param format_q in
      case req_user of
        None \<Rightarrow> Inl (401, ''Unauthorized'')
      | Some u \<Rightarrow>
        if \<not> truthy student_id then Inl (400, ''student_id is required'')
        else if u_role u = ''admin'' then exportStudentQuery db student_id format
        else if u_role u = ''student'' then
          (if \<not> truthy (user_student_id u)
              \<or> String (user_student_id u) \<noteq> String student_id
           then Inl (403, ''Forbidden'')
           else if truthy format \<and> toLowerCase (String format) \<noteq> ''pdf''
           then Inl (400, ''Students can only download PDF reports.'')
           else exportStudentQuery db student_id format)
        else if u_role u = ''teacher'' then exportStudentQuery db student_id format
        else Inl (403, ''Forbidden''))"

record summary_row =
  student_id :: int
  student_name :: string
  roll_number :: "string option"
  total :: int
  presents :: int
  absents :: int

definition present_flag :: "attendance_row option \<Rightarrow> int" where
  "present_flag a = (case a of None \<Rightarrow> 0 | Some r \<Rightarrow> if a_status r = ''present'' then 1 else 0)"

definition student_key :: "student_row \<Rightarrow> int \<times> string \<times> string option" where
  "student_key st = (st_id st, st_name st, st_roll_number st)"

definition name_asc :: "summary_row \<Rightarrow> summary_row \<Rightarrow> bool" where
  "name_asc r1 r2 = (student_name r1 \<le> student_name r2)"

text \<open>The query of \<^verbatim>\<open>GET /api/reports/summary-by-class\<close>.\<close>

definition classSummary :: "store \<Rightarrow> int \<Rightarrow> summary_row list" where
  "classSummary db classId =
     (let joined =
            left_join
              (\<lambda>(st, a) sess. case a of None \<Rightarrow> False
                 | Some r \<Rightarrow> sess_id sess = a_session_id r \<and> sess_class_id sess = st_class_id st)
              (left_join (\<lambda>st a. a_student_id a = st_id st) (students db) (attendance db))
              (sessions db);
          selected = filter (\<lambda>((st, a), sess). st_class_id st = classId) joined;
          groups = group_by (\<lambda>((st, a), sess). student_key st) selected
      in order_by name_asc
           (map (\<lambda>(k, g).
                   let t = count_distinct (map (\<lambda>((st, a), sess). map_option a_session_id a) g);
                       p = sum_list (map (\<lambda>((st, a), sess). present_flag a) g)
                   in \<lparr>student_id = fst k, student_name = fst (snd k),
                       roll_number = snd (snd k), total = t, presents = p, absents = t - p\<rparr>)
              groups))"

text \<open>The query of \<^verbatim>\<open>GET /api/reports/summary-by-class/export\<close>.\<close>

definition classSummaryExport :: "store \<Rightarrow> int \<Rightarrow> summary_row list" where
  "classSummaryExport db classId =
     (let joined =
            left_join
              (\<lambda>(st, sess) a. case sess of None \<Rightarrow> False
                 | Some s \<Rightarrow> a_student_id a = st_id st \<and> a_session_id a = sess_id s)
              (left_join (\<lambda>st sess. sess_class_id sess = st_class_id st) (students db)
                 (sessions db))
              (attendance db);
          selected = filter (\<lambda>((st, sess), a). st_class_id st = classId) joined;
          groups = group_by (\<lambda>((st, sess), a). student_key st) selected
      in order_by name_asc
           (map (\<lambda>(k, g).
                   let p = sum_list (map (\<lambda>((st, sess), a). present_flag a) g);
                       t = count_col (map (\<lambda>((st, sess), a). map_option sess_id sess) g)
                   in \<lparr>student_id = fst k, student_name = fst (snd k),
                       roll_number = snd (snd k), total = t, presents = p, absents = t - p\<rparr>)
              groups))"

text \<open>\<^verbatim>\<open>GET /api/reports/summary-by-class\<close>\<close>

definition summaryByClass :: "user option \<Rightarrow> jsval \<Rightarrow> store \<Rightarrow> failure + summary_row list" where
  "summaryByClass req_user class_id db =
     (case req_user of
        None \<Rightarrow> Inl (401, ''Unauthorized'')
      | Some u \<Rightarrow>
        if \<not> truthy class_id then Inl (400, ''class_id is required'')
        else
        (case parseInt class_id of
           None \<Rightarrow> Inl (400, ''Invalid class_id'')
         | Some classIdInt \<Rightarrow>
           if classIdInt \<le> 0 then Inl (400, ''Invalid class_id'')
           else if u_role u = ''student'' then Inl (403, ''Forbidden'')
           else Inr (classSummary db classIdInt)))"

text \<open>\<^verbatim>\<open>GET /api/reports/summary-by-class/export\<close>\<close>

definition exportSummaryByClass ::
  "user option \<Rightarrow> jsval \<Rightarrow> jsval \<Rightarrow> store \<Rightarrow> failure + summary_row export" where
  "exportSummaryByClass req_user class_id format_q db =
     (let format = format_param format_q in
      case req_user of
        None \<Rightarrow> Inl (401, ''Unauthorized'')
      | Some u \<Rightarrow>
        if \<not> truthy class_id then Inl (400, ''class_id is required'')
        else if u_role u = ''student'' then Inl (403, ''Forbidden'')
        else
        (case pg_integer (String class_id) of
           None \<Rightarrow> Inl (500, ''Database error'')
         | Some n \<Rightarrow>
           if format = JStr ''pdf''
           then Inr (SendPdf (classSummaryExport db n) (''class-'' @ String class_id @ ''-summary.pdf''))
           else Inr (SendCsv (classSummaryExport db n) (''class-'' @ String class_id @ ''-summary''))))"

section \<open>Store constraints and specification-level notions\<close>

text \<open>The constraints of \<^verbatim>\<open>schema.sql\<close>: primary keys of students and sessions,
  \<^verbatim>\<open>UNIQUE(session_id, student_id)\<close> and the foreign keys of attendance.\<close>

definition attendance_key :: "attendance_row \<Rightarrow> int \<times> int" where
  "attendance_key a = (a_session_id a, a_student_id a)"

definition schema_ok :: "store \<Rightarrow> bool" where
  "schema_ok db =
     (distinct (map st_id (students db)) \<and> distinct (map sess_id (sessions db))
      \<and> distinct (map attendance_key (attendance db))
      \<and> list_all (\<lambda>a. a_session_id a \<in> set (map sess_id (sessions db))
                       \<and> a_student_id a \<in> set (map st_id (students db)))
            (attendance db))"

text \<open>Every attendance row joins a student with a session of the student's class.\<close>

definition class_consistent :: "store \<Rightarrow> bool" where
  "class_consistent db =
     list_all (\<lambda>a. list_all (\<lambda>st. list_all (\<lambda>s.
         \<not> (a_student_id a = st_id st \<and> a_session_id a = sess_id s)
           \<or> sess_class_id s = st_class_id st) (sessions db)) (students db)) (attendance db)"

text \<open>The attendance rows of one student, and the summary row they determine.\<close>

definition attendance_of :: "store \<Rightarrow> int \<Rightarrow> attendance_row list" where
  "attendance_of db stid = filter (\<lambda>a. a_student_id a = stid) (attendance db)"

definition student_summary :: "store \<Rightarrow> student_row \<Rightarrow> summary_row" where
  "student_summary db st =
     (let t = int (length (attendance_of db (st_id st)));
          p = int (length (filter (\<lambda>a. a_status a = ''present'') (attendance_of db (st_id st))))
      in \<lparr>student_id = st_id st, student_name = st_name st, roll_number = st_roll_number st,
          total = t, presents = p, absents = t - p\<rparr>)"

text \<open>The sessions of a class for which a student has an attendance record.\<close>

definition marked_sessions :: "store \<Rightarrow> int \<Rightarrow> int \<Rightarrow> session_row set" where
  "marked_sessions db classId stid =
     {s \<in> set (sessions db). sess_class_id s = classId
        \<and> (\<exists>a \<in> set (attendance db). a_session_id a = sess_id s \<and> a_student_id a = stid)}"

text \<open>The attendance rows under one key, and a sequence of calls of the commit handler.\<close>

definition key_rows :: "store \<Rightarrow> int \<Rightarrow> int \<Rightarrow> attendance_row list" where
  "key_rows db sid stid = filter (same_key sid stid) (attendance db)"

type_synonym call = "user option \<times> jsval \<times> raw_record list option \<times> timestamp"

fun run_call :: "store \<Rightarrow> call \<Rightarrow> store" where
  "run_call db (req_user, session_id, records_opt, now) =
     snd (commitAttendance req_user session_id records_opt now db)"

definition run_calls :: "store \<Rightarrow> call list \<Rightarrow> store" where
  "run_calls db calls = foldl run_call db calls"

text \<open>The seed rows of \<^verbatim>\<open>schema.sql\<close>, and the same store with a second student and
  one session of class 1, and a second class with one student.\<close>

definition seed_store :: store where
  "seed_store =
     \<lparr>classes = [\<lparr>c_id = 1, c_name = ''Class 12'', c_description = Some ''Demo class for examples''\<rparr>],
      students = [\<lparr>st_id = 1, st_name = ''aditya'', st_roll_number = Some ''123'', st_class_id = 1\<rparr>],
      sessions = [], attendance = [], attendance_id_seq = 0\<rparr>"

definition demo_store :: store where
  "demo_store =
     seed_store\<lparr>classes := classes seed_store @
                   [\<lparr>c_id = 2, c_name = ''Class 11'', c_description = None\<rparr>],
                 students := students seed_store @
                   [\<lparr>st_id = 2, st_name = ''bela'', st_roll_number = None, st_class_id = 1\<rparr>,
                    \<lparr>st_id = 3, st_name = ''chitra'', st_roll_number = None, st_class_id = 2\<rparr>],
                 sessions := [\<lparr>sess_id = 1, sess_class_id = 1, sess_date = (2024, 1, 10),
                               sess_topic = None\<rparr>]\<rparr>"

definition seed_admin :: user where
  "seed_admin = \<lparr>u_id = 1, u_username = ''admin'', u_role = ''admin'',
                 u_class_id = None, u_student_id = None\<rparr>"

definition seed_teacher :: user where
  "seed_teacher = \<lparr>u_id = 2, u_username = ''teacher1'', u_role = ''teacher'',
                   u_class_id = Some 1, u_student_id = None\<rparr>"

definition seed_student :: user where
  "seed_student = \<lparr>u_id = 3, u_username = ''aditya'', u_role = ''student'',
                   u_class_id = Some 1, u_student_id = Some 1\<rparr>"

text \<open>The store after the teacher marks student 1 present and student 2 absent in
  session 1 at time 7, and after student 1 is marked again, absent, at time 9.\<close>

definition demo_marked :: store where
  "demo_marked =
     snd (commitAttendance (Some seed_teacher) (JStr ''1'')
            (Some [\<lparr>r_student_id = JNum 1, r_status = JStr ''present''\<rparr>,
                   \<lparr>r_student_id = JNum 2, r_status = JStr ''absent''\<rparr>]) 7 demo_store)"

definition demo_remarked :: store where
  "demo_remarked =
     snd (commitAttendance (Some seed_teacher) (JStr ''1'')
            (Some [\<lparr>r_student_id = JNum 1, r_status = JStr ''absent''\<rparr>]) 9 demo_marked)"

section \<open>Decimal numerals\<close>

lemma digits_nonempty: "digits n \<noteq> []"
  by (subst digits.simps) simp

lemma of_char_digit_char: "d < 10 \<Longrightarrow> (of_char (digit_char d) :: nat) = 48 + d"
  by (simp add: digit_char_def)

lemma is_digit_digit_char: "d < 10 \<Longrightarrow> is_digit (digit_char d)"
  by (simp add: is_digit_def of_char_digit_char)

lemma digit_val_digit_char: "d < 10 \<Longrightarrow> digit_val (digit_char d) = d"
  by (simp add: digit_val_def of_char_digit_char)

lemma is_digit_not_ws: "is_digit c \<Longrightarrow> \<not> is_ws c"
  by (auto simp: is_digit_def is_ws_def)

lemma is_digit_not_sign: "is_digit c \<Longrightarrow> c \<noteq> CHR ''-'' \<and> c \<noteq> CHR ''+''"
  by (auto simp: is_digit_def)

lemma minus_not_ws: "\<not> is_ws CHR ''-''"
  by (simp add: is_ws_def)

lemma digits_all_digit: "list_all is_digit (digits n)"
proof (induction n rule: digits.induct)
  case (1 n)
  show ?case
  proof (cases "n < 10")
    case True
    then show ?thesis by (subst digits.simps) (simp add: is_digit_digit_char)
  next
    case False
    with 1 show ?thesis by (subst digits.simps) (simp add: is_digit_digit_char)
  qed
qed

lemma digits_value_snoc: "digits_value (z @ [c]) = 10 * digits_value z + digit_val c"
  by (simp add: digits_value_def)

lemma digits_value_digits: "digits_value (digits n) = n"
proof (induction n rule: digits.induct)
  case (1 n)
  show ?case
  proof (cases "n < 10")
    case True
    then show ?thesis
      by (subst digits.simps) (simp add: digits_value_def digit_val_digit_char)
  next
    case False
    with 1 show ?thesis
      by (subst digits.simps) (simp add: digits_value_snoc digit_val_digit_char)
  qed
qed

lemma dropWhile_ws_digits: "list_all is_digit z \<Longrightarrow> dropWhile is_ws z = z"
  by (cases z) (auto simp: is_digit_not_ws)


lemma takeWhile_digits: "list_all is_digit z \<Longrightarrow> takeWhile is_digit z = z"
  by (simp add: list_all_iff)

lemma parseInt_str_digits:
  assumes "list_all is_digit z" "z \<noteq> []"
  shows "parseInt_str z = Some (int (digits_value z))"
proof -
  from assms obtain c cs where z: "z = c # cs" by (cases z) auto
  with assms have c: "is_digit c" by simp
  have d: "dropWhile is_ws z = c # cs"
    using dropWhile_ws_digits[OF assms(1)] z by simp
  have t: "takeWhile is_digit (c # cs) = z"
    using takeWhile_digits[OF assms(1)] z by simp
  show ?thesis
    unfolding parseInt_str_def d Let_def
    using assms is_digit_not_sign[OF c] t by simp
qed

lemma parseInt_str_minus_digits:
  assumes "list_all is_digit z" "z \<noteq> []"
  shows "parseInt_str (CHR ''-'' # z) = Some (- int (digits_value z))"
  using assms by (simp add: parseInt_str_def minus_not_ws takeWhile_digits Let_def)

lemma parseInt_str_String_int: "parseInt_str (String_int n) = Some n"
  by (simp add: String_int_def parseInt_str_digits parseInt_str_minus_digits
      digits_all_digit digits_nonempty digits_value_digits)




lemma String_int_inj: "String_int m = String_int n \<Longrightarrow> m = n"
  by (metis parseInt_str_String_int option.inject)

lemma String_int_nonempty: "String_int n \<noteq> []"
  by (simp add: String_int_def digits_nonempty)

section \<open>Ordering of query results\<close>

lemma mset_insert_by: "mset (insert_by le x xs) = add_mset x (mset xs)"
  by (induction xs) auto

lemma mset_order_by: "mset (order_by le xs) = mset xs"
  by (induction xs) (auto simp: order_by_def mset_insert_by)

lemma set_order_by: "set (order_by le xs) = set xs"
  by (metis mset_order_by set_mset_mset)

lemma length_order_by: "length (order_by le xs) = length xs"
  by (metis mset_order_by size_mset)

lemma sorted_wrt_insert_by:
  assumes tot: "\<And>a b. le a b \<or> le b a" and tr: "\<And>a b c. le a b \<Longrightarrow> le b c \<Longrightarrow> le a c"
  shows "sorted_wrt le xs \<Longrightarrow> sorted_wrt le (insert_by le x xs)"
proof (induction xs)
  case Nil
  then show ?case by simp
next
  case (Cons y ys)
  show ?case
  proof (cases "le x y")
    case True
    with Cons.prems show ?thesis by (auto intro: tr)
  next
    case False
    then have yx: "le y x" using tot by blast
    have "set (insert_by le x ys) = insert x (set ys)"
      by (metis mset_insert_by set_mset_add_mset_insert set_mset_mset)
    with False yx Cons show ?thesis by auto
  qed
qed

lemma sorted_wrt_order_by:
  assumes tot: "\<And>a b. le a b \<or> le b a" and tr: "\<And>a b c. le a b \<Longrightarrow> le b c \<Longrightarrow> le a c"
  shows "sorted_wrt le (order_by le xs)"
proof (induction xs)
  case Nil
  then show ?case by (simp add: order_by_def)
next
  case (Cons x xs)
  have "order_by le (x # xs) = insert_by le x (order_by le xs)"
    by (simp add: order_by_def)
  with Cons show ?case
    using sorted_wrt_insert_by[of le "order_by le xs" x] tot tr by metis
qed



section \<open>The student report\<close>


section \<open>Access to the student report and its export\<close>






text \<open>
  The guard of the student branch lowers the format before comparing it with
  \<open>pdf\<close> and lets an empty format through, while the query chooses the PDF only for
  the exact string \<open>pdf\<close>: a student sending \<open>PDF\<close> or an empty format is handed
  the CSV.
\<close>

lemma student_export_other_spellings:
  "exportByStudent (Some seed_student) (JStr ''1'') (JStr ''PDF'') seed_store
     = Inr (SendCsv (studentReport seed_store 1) ''student-1-report'')
   \<and> exportByStudent (Some seed_student) (JStr ''1'') (JStr []) seed_store
     = Inr (SendCsv (studentReport seed_store 1) ''student-1-report'')"
  by code_simp

text \<open>
  C8. A student asking for the report of a student id other than the own one (or having
  no student id at all) gets status 403 from the report and from the export, whatever
  the format.
\<close>

theorem student_other_report_forbidden:
  assumes "u_role u = ''student''" and "0 < n" and "u_student_id u \<noteq> Some n"
  shows "reportByStudent (Some u) (JStr (String_int n)) db
           = Inl (403, ''Forbidden: You can only view your own attendance'')
       \<and> exportByStudent (Some u) (JStr (String_int n)) format db = Inl (403, ''Forbidden'')"
proof -
  have ne: "truthy (JStr (String_int n))" by (simp add: String_int_nonempty)
  have p: "parseInt (JStr (String_int n)) = Some n"
    by (simp add: parseInt_def parseInt_str_String_int)
  have deny: "\<not> truthy (user_student_id u) \<or> String (user_student_id u) \<noteq> String_int n"
  proof (cases "u_student_id u")
    case None
    then show ?thesis by (simp add: user_student_id_def)
  next
    case (Some m)
    with assms(3) have "m \<noteq> n" by simp
    then have "String_int m \<noteq> String_int n" using String_int_inj by blast
    with Some show ?thesis by (simp add: user_student_id_def)
  qed
  show ?thesis
    using assms(1,2) ne p deny
    by (auto simp: reportByStudent_def exportByStudent_def Let_def)
qed

theorem student_other_report_forbidden_witness:
  "reportByStudent (Some seed_student) (JStr (String_int 2)) demo_store
           = Inl (403, ''Forbidden: You can only view your own attendance'')
   \<and> exportByStudent (Some seed_student) (JStr (String_int 2)) (JStr ''pdf'') demo_store
           = Inl (403, ''Forbidden'')
   \<and> String_int 2 = ''2''"
proof -
  have d: "String_int 2 = ''2''"
    by code_simp
  have h: "u_role seed_student = ''student''" "u_student_id seed_student \<noteq> Some 2"
    by (simp_all add: seed_student_def)
  show ?thesis
    using student_other_report_forbidden[OF h(1) _ h(2), of demo_store "JStr ''pdf''"] d
    by simp
qed

section \<open>The membership check and the upsert\<close>

lemma length_checkResult:
  assumes "distinct (map st_id (students db))"
  shows "length (checkResult db ids c)
           = card (set ids \<inter> set (map st_id (filter (\<lambda>st. st_class_id st = c) (students db))))"
proof -
  have d: "distinct (checkResult db ids c)"
    unfolding checkResult_def using assms by (rule distinct_map_filter)
  have "set (checkResult db ids c)
          = set ids \<inter> set (map st_id (filter (\<lambda>st. st_class_id st = c) (students db)))"
    by (auto simp: checkResult_def)
  with d show ?thesis by (metis distinct_card)
qed

lemma checkResult_le:
  assumes "distinct (map st_id (students db))"
  shows "length (checkResult db ids c) \<le> card (set ids)"
  unfolding length_checkResult[OF assms] by (rule card_mono) auto

lemma checkResult_duplicate:
  assumes "distinct (map st_id (students db))" and "\<not> distinct ids"
  shows "length (checkResult db ids c) \<noteq> length ids"
proof -
  have "card (set ids) < length ids"
    using assms(2) by (metis card_distinct card_length le_neq_implies_less)
  with checkResult_le[OF assms(1), of ids c] show ?thesis by simp
qed

lemma checkResult_foreign:
  assumes "distinct (map st_id (students db))" and "x \<in> set ids"
    and "x \<notin> set (map st_id (filter (\<lambda>st. st_class_id st = c) (students db)))"
  shows "length (checkResult db ids c) \<noteq> length ids"
proof -
  let ?C = "set (map st_id (filter (\<lambda>st. st_class_id st = c) (students db)))"
  have "set ids \<inter> ?C \<subseteq> set ids - {x}" using assms(3) by auto
  then have "card (set ids \<inter> ?C) \<le> card (set ids - {x})" by (simp add: card_mono)
  also have "\<dots> < card (set ids)" using assms(2) by (intro card_Diff1_less) auto
  also have "\<dots> \<le> length ids" by (rule card_length)
  finally show ?thesis using length_checkResult[OF assms(1), of ids c] by simp
qed

lemma checkResult_pass_distinct:
  assumes "distinct (map st_id (students db))"
    and "length (checkResult db ids c) = length ids"
  shows "distinct ids"
  using checkResult_duplicate[OF assms(1)] assms(2) by blast

lemma filter_key_le1:
  "distinct (map f xs) \<Longrightarrow> length (filter (\<lambda>x. f x = k) xs) \<le> Suc 0"
proof (induction xs)
  case Nil
  then show ?case by simp
next
  case (Cons x xs)
  show ?case
  proof (cases "f x = k")
    case True
    from Cons.prems have "f x \<notin> f ` set xs" by simp
    with True have "\<forall>y \<in> set xs. f y \<noteq> k" by blast
    then have "filter (\<lambda>y. f y = k) xs = []"
      by (simp add: filter_empty_conv)
    with True show ?thesis by simp
  next
    case False
    with Cons show ?thesis by simp
  qed
qed

lemma same_key_attendance_key: "same_key sid stid a = (attendance_key a = (sid, stid))"
  by (auto simp: same_key_def attendance_key_def)

lemma key_rows_le1:
  assumes "distinct (map attendance_key (attendance db))"
  shows "length (key_rows db sid stid) \<le> Suc 0"
  unfolding key_rows_def same_key_attendance_key using assms by (rule filter_key_le1)

lemma filter_map_update:
  assumes "\<And>a. P (f a) = P a"
  shows "filter P (map (\<lambda>a. if Q a then f a else a) xs)
           = map (\<lambda>a. if Q a then f a else a) (filter P xs)"
  using assms by (induction xs) auto

lemma key_rows_upsert_same:
  "key_rows (upsert now sid db (stid, st)) sid stid =
     (case key_rows db sid stid of
        [] \<Rightarrow> [\<lparr>a_id = attendance_id_seq db + 1, a_session_id = sid, a_student_id = stid,
                 a_status = st, a_marked_at = now\<rparr>]
      | old # olds \<Rightarrow> map (\<lambda>a. a\<lparr>a_status := st\<rparr>) (old # olds))"
proof (cases "\<exists>a \<in> set (attendance db). same_key sid stid a")
  case True
  then have ne: "key_rows db sid stid \<noteq> []"
    by (auto simp: key_rows_def filter_empty_conv)
  have "filter (same_key sid stid)
          (map (\<lambda>a. if same_key sid stid a then a\<lparr>a_status := st\<rparr> else a) (attendance db))
        = map (\<lambda>a. if same_key sid stid a then a\<lparr>a_status := st\<rparr> else a)
            (filter (same_key sid stid) (attendance db))"
    by (rule filter_map_update) (simp add: same_key_def)
  also have "\<dots> = map (\<lambda>a. a\<lparr>a_status := st\<rparr>) (filter (same_key sid stid) (attendance db))"
    by (rule map_cong) auto
  finally show ?thesis
    using True ne by (simp add: upsert_def key_rows_def Let_def split: list.splits)
next
  case False
  then have "key_rows db sid stid = []"
    by (auto simp: key_rows_def filter_empty_conv)
  with False show ?thesis
    by (auto simp: upsert_def key_rows_def Let_def same_key_def)
qed

lemma key_rows_upsert_other:
  assumes "sid' \<noteq> sid \<or> stid' \<noteq> stid"
  shows "key_rows (upsert now sid' db (stid', st)) sid stid = key_rows db sid stid"
proof (cases "\<exists>a \<in> set (attendance db). same_key sid' stid' a")
  case True
  have "filter (same_key sid stid)
          (map (\<lambda>a. if same_key sid' stid' a then a\<lparr>a_status := st\<rparr> else a) (attendance db))
        = map (\<lambda>a. if same_key sid' stid' a then a\<lparr>a_status := st\<rparr> else a)
            (filter (same_key sid stid) (attendance db))"
    by (rule filter_map_update) (simp add: same_key_def)
  also have "\<dots> = map (\<lambda>a. a) (filter (same_key sid stid) (attendance db))"
    using assms by (intro map_cong) (auto simp: same_key_def)
  finally show ?thesis
    using True by (simp add: upsert_def key_rows_def Let_def)
next
  case False
  with assms show ?thesis
    by (auto simp: upsert_def key_rows_def Let_def same_key_def)
qed

lemma upsert_keeps_single:
  assumes "key_rows db sid stid = [row]"
  shows "\<exists>st. key_rows (upsert now sid' db p) sid stid = [row\<lparr>a_status := st\<rparr>]"
proof (cases "sid' = sid \<and> fst p = stid")
  case True
  then have "key_rows (upsert now sid' db p) sid stid = [row\<lparr>a_status := snd p\<rparr>]"
    using key_rows_upsert_same[of now sid db stid "snd p"] assms by (cases p) simp
  then show ?thesis by blast
next
  case False
  then have "key_rows (upsert now sid' db p) sid stid = [row\<lparr>a_status := a_status row\<rparr>]"
    using key_rows_upsert_other[of sid' sid "fst p" stid now db "snd p"] assms by (cases p) auto
  then show ?thesis by blast
qed

lemma foldl_upsert_keeps_single:
  "key_rows db sid stid = [row] \<Longrightarrow>
   \<exists>st. key_rows (foldl (upsert now sid') db ps) sid stid = [row\<lparr>a_status := st\<rparr>]"
proof (induction ps arbitrary: db row)
  case Nil
  then have "key_rows db sid stid = [row\<lparr>a_status := a_status row\<rparr>]" by simp
  then show ?case by (metis foldl_Nil)
next
  case (Cons p ps)
  from upsert_keeps_single[OF Cons.prems, of now sid' p]
  obtain s1 where s1: "key_rows (upsert now sid' db p) sid stid = [row\<lparr>a_status := s1\<rparr>]"
    by blast
  from Cons.IH[OF s1] obtain s2 where
    "key_rows (foldl (upsert now sid') (upsert now sid' db p) ps) sid stid
       = [row\<lparr>a_status := s1\<rparr>\<lparr>a_status := s2\<rparr>]" by blast
  then have "key_rows (foldl (upsert now sid') db (p # ps)) sid stid = [row\<lparr>a_status := s2\<rparr>]"
    by simp
  then show ?case by blast
qed

lemma foldl_upsert_untouched:
  "stid \<notin> fst ` set ps \<Longrightarrow>
   key_rows (foldl (upsert now sid) db ps) sid stid = key_rows db sid stid"
proof (induction ps arbitrary: db)
  case Nil
  then show ?case by simp
next
  case (Cons p ps)
  then have "fst p \<noteq> stid" by auto
  then have "key_rows (upsert now sid db p) sid stid = key_rows db sid stid"
    using key_rows_upsert_other[of sid sid "fst p" stid now db "snd p"] by simp
  with Cons show ?case by simp
qed

lemma foldl_upsert_single:
  assumes "distinct (map fst ps)" and "(stid, st) \<in> set ps"
    and "length (key_rows db sid stid) \<le> Suc 0"
  shows "\<exists>row. key_rows (foldl (upsert now sid) db ps) sid stid = [row]
            \<and> a_status row = st
            \<and> (case key_rows db sid stid of [] \<Rightarrow> a_marked_at row = now
                | old # olds \<Rightarrow> row = old\<lparr>a_status := st\<rparr>)"
  using assms
proof (induction ps arbitrary: db)
  case Nil
  then show ?case by simp
next
  case (Cons p ps)
  show ?case
  proof (cases "fst p = stid")
    case True
    with Cons.prems(1,2) have p: "p = (stid, st)"
      by (cases p) (auto simp: image_iff)
    from Cons.prems(1) True have "stid \<notin> fst ` set ps" by auto
    then have eq: "key_rows (foldl (upsert now sid) db (p # ps)) sid stid
                     = key_rows (upsert now sid db (stid, st)) sid stid"
      using foldl_upsert_untouched[of stid ps now sid "upsert now sid db p"] p by simp
    show ?thesis
    proof (cases "key_rows db sid stid")
      case Nil
      then show ?thesis unfolding eq key_rows_upsert_same by simp
    next
      case (Cons old olds)
      with Cons.prems(3) have "olds = []" by simp
      with Cons show ?thesis unfolding eq key_rows_upsert_same by simp
    qed
  next
    case False
    then have k: "key_rows (upsert now sid db p) sid stid = key_rows db sid stid"
      using key_rows_upsert_other[of sid sid "fst p" stid now db "snd p"] by simp
    from False Cons.prems(2) have mem: "(stid, st) \<in> set ps" by auto
    from Cons.prems(1) have d: "distinct (map fst ps)" by simp
    from Cons.IH[OF d mem, of "upsert now sid db p"] Cons.prems(3) k
    show ?thesis by simp
  qed
qed

section \<open>Rejected batches\<close>





text \<open>
  C3. The membership check compares the number of matching students with the number of
  surviving ids counted with repetitions: the batch naming student 1 of class 1 twice,
  for session 1 of class 1, is refused although every id belongs to the class.
\<close>

theorem commit_repeated_member_example:
  "studentIds_of [\<lparr>r_student_id = JNum 1, r_status = JStr ''present''\<rparr>,
                  \<lparr>r_student_id = JNum 1, r_status = JStr ''present''\<rparr>] = [1, 1]
   \<and> checkResult demo_store [1, 1] 1 = [1]
   \<and> commitAttendance (Some seed_teacher) (JStr ''1'')
        (Some [\<lparr>r_student_id = JNum 1, r_status = JStr ''present''\<rparr>,
               \<lparr>r_student_id = JNum 1, r_status = JStr ''present''\<rparr>]) 7 demo_store
      = ((400, ''Some students do not belong to this session's class''), demo_store)"
  by code_simp

theorem commit_repeated_member_example_witness:
  "fst (fst (commitAttendance (Some seed_teacher) (JStr ''1'')
        (Some [\<lparr>r_student_id = JNum 1, r_status = JStr ''present''\<rparr>,
               \<lparr>r_student_id = JNum 1, r_status = JStr ''present''\<rparr>]) 7 demo_store)) = 400
   \<and> set (studentIds_of [\<lparr>r_student_id = JNum 1, r_status = JStr ''present''\<rparr>,
                           \<lparr>r_student_id = JNum 1, r_status = JStr ''present''\<rparr>])
       \<subseteq> set (map st_id (filter (\<lambda>st. st_class_id st = 1) (students demo_store)))"
  using commit_repeated_member_example by (simp add: demo_store_def seed_store_def)

section \<open>Commits as upserts\<close>

lemma commit_store_cases:
  "snd (commitAttendance req_user session_id records_opt now db) = db
   \<or> (\<exists>sid ps. snd (commitAttendance req_user session_id records_opt now db)
                  = foldl (upsert now sid) db ps)"
  by (auto simp: commitAttendance_def Let_def split: option.splits list.splits)

lemma commit_success:
  assumes "commitAttendance req_user session_id (Some records) now db = ((201, msg), db1)"
  shows "\<exists>sid sess others.
           parseInt session_id = Some sid
         \<and> filter (\<lambda>s. sess_id s = sid) (sessions db) = sess # others
         \<and> invalidRecords_of records = []
         \<and> length (checkResult db (studentIds_of records) (sess_class_id sess))
             = length (studentIds_of records)
         \<and> db1 = foldl (upsert now sid) db (map upsert_params (validRecords_of records))"
  using assms
  by (auto simp: commitAttendance_def Let_def split: option.splits list.splits if_splits)

lemma all_status_ok: "invalidRecords_of records = [] \<Longrightarrow> r \<in> set records \<Longrightarrow> status_ok r"
  by (auto simp: invalidRecords_of_def filter_empty_conv)

lemma validRecords_ids:
  assumes "invalidRecords_of records = []"
  shows "map fst (map upsert_params (validRecords_of records)) = studentIds_of records"
proof -
  have v: "validRecords_of records
             = filter (\<lambda>r. valid_id (parseInt (r_student_id r))) records"
    unfolding validRecords_of_def
    by (rule filter_cong) (auto simp: all_status_ok[OF assms])
  show ?thesis
    by (simp add: v studentIds_of_def upsert_params_def filter_map comp_def)
qed

lemma validRecords_member:
  assumes "invalidRecords_of records = []" and "r \<in> set records"
    and "parseInt (r_student_id r) = Some stid" and "0 < stid"
  shows "(stid, toLowerCase (String (r_status r))) \<in> set (map upsert_params (validRecords_of records))"
proof -
  have "r \<in> set (validRecords_of records)"
    using assms by (simp add: validRecords_of_def valid_id_def all_status_ok)
  moreover have "upsert_params r = (stid, toLowerCase (String (r_status r)))"
    using assms(3) by (simp add: upsert_params_def)
  ultimately show ?thesis by (metis image_eqI set_map)
qed

lemma commit_keeps_single:
  assumes "key_rows db sid stid = [row]"
  shows "\<exists>st. key_rows (snd (commitAttendance req_user session_id records_opt now db)) sid stid
               = [row\<lparr>a_status := st\<rparr>]"
proof -
  from commit_store_cases[of req_user session_id records_opt now db]
  consider "snd (commitAttendance req_user session_id records_opt now db) = db"
    | sid' ps where "snd (commitAttendance req_user session_id records_opt now db)
                       = foldl (upsert now sid') db ps"
    by blast
  then show ?thesis
  proof cases
    case 1
    with assms have "key_rows (snd (commitAttendance req_user session_id records_opt now db))
                       sid stid = [row\<lparr>a_status := a_status row\<rparr>]" by simp
    then show ?thesis by blast
  next
    case 2
    with foldl_upsert_keeps_single[OF assms, of now sid' ps] show ?thesis by simp
  qed
qed

lemma run_calls_keeps_single:
  "key_rows db sid stid = [row] \<Longrightarrow>
   \<exists>st. key_rows (run_calls db calls) sid stid = [row\<lparr>a_status := st\<rparr>]"
proof (induction calls arbitrary: db row)
  case Nil
  then have "key_rows (run_calls db []) sid stid = [row\<lparr>a_status := a_status row\<rparr>]"
    by (simp add: run_calls_def)
  then show ?case by blast
next
  case (Cons c calls)
  obtain u s r t where c: "c = (u, s, r, t)" by (cases c) auto
  from commit_keeps_single[OF Cons.prems, of u s r t]
  obtain s1 where s1: "key_rows (run_call db c) sid stid = [row\<lparr>a_status := s1\<rparr>]"
    using c by auto
  from Cons.IH[OF s1] obtain s2 where
    "key_rows (run_calls (run_call db c) calls) sid stid
       = [row\<lparr>a_status := s1\<rparr>\<lparr>a_status := s2\<rparr>]" by blast
  then have "key_rows (run_calls db (c # calls)) sid stid = [row\<lparr>a_status := s2\<rparr>]"
    by (simp add: run_calls_def)
  then show ?case by blast
qed

text \<open>
  C2. After a successful commit that marks a student in a session, the store holds exactly
  one attendance row under the key (session, student), with the status of the batch. If
  there was no row before, its \<open>marked_at\<close> is the time of this commit; if there was
  one, the row is the old one with only the status changed. After any further sequence of
  calls of the commit handler there is still exactly one row under the key, and it differs
  from that row in the status at most.
\<close>

theorem commit_upsert_single_record:
  assumes "schema_ok db"
    and "commitAttendance req_user session_id (Some records) now db = ((201, msg), db1)"
    and "parseInt session_id = Some sid"
    and "r \<in> set records" and "parseInt (r_student_id r) = Some stid" and "0 < stid"
  shows "\<exists>row. key_rows db1 sid stid = [row]
           \<and> a_status row = toLowerCase (String (r_status r))
           \<and> (case key_rows db sid stid of
                 [] \<Rightarrow> a_marked_at row = now
               | old # olds \<Rightarrow> row = old\<lparr>a_status := a_status row\<rparr>)
           \<and> (\<forall>calls. \<exists>st. key_rows (run_calls db1 calls) sid stid = [row\<lparr>a_status := st\<rparr>])"
proof -
  from commit_success[OF assms(2)] obtain sid' sess others where
    p: "parseInt session_id = Some sid'"
    and f: "filter (\<lambda>s. sess_id s = sid') (sessions db) = sess # others"
    and inv: "invalidRecords_of records = []"
    and chk: "length (checkResult db (studentIds_of records) (sess_class_id sess))
                = length (studentIds_of records)"
    and db1': "db1 = foldl (upsert now sid') db (map upsert_params (validRecords_of records))"
    by (elim exE conjE) (rule that)
  from p assms(3) have "sid' = sid" by simp
  with db1' have db1: "db1 = foldl (upsert now sid) db (map upsert_params (validRecords_of records))"
    by simp
  from assms(1) have pk: "distinct (map st_id (students db))"
    and uq: "distinct (map attendance_key (attendance db))"
    by (simp_all add: schema_ok_def)
  have d: "distinct (map fst (map upsert_params (validRecords_of records)))"
    unfolding validRecords_ids[OF inv] using pk chk by (rule checkResult_pass_distinct)
  have m: "(stid, toLowerCase (String (r_status r)))
             \<in> set (map upsert_params (validRecords_of records))"
    using inv assms(4,5,6) by (rule validRecords_member)
  from foldl_upsert_single[OF d m key_rows_le1[OF uq], of now sid]
  obtain row where row: "key_rows db1 sid stid = [row]"
    "a_status row = toLowerCase (String (r_status r))"
    "case key_rows db sid stid of [] \<Rightarrow> a_marked_at row = now
     | old # olds \<Rightarrow> row = old\<lparr>a_status := toLowerCase (String (r_status r))\<rparr>"
    unfolding db1 by blast
  have later: "\<forall>calls. \<exists>st. key_rows (run_calls db1 calls) sid stid = [row\<lparr>a_status := st\<rparr>]"
    using run_calls_keeps_single[OF row(1)] by blast
  from row later show ?thesis
    by (auto split: list.splits)
qed

theorem commit_upsert_single_record_witness:
  "\<exists>row. key_rows demo_remarked 1 1 = [row]
      \<and> a_status row = ''absent'' \<and> a_marked_at row = 7
      \<and> (\<forall>calls. \<exists>st. key_rows (run_calls demo_remarked calls) 1 1 = [row\<lparr>a_status := st\<rparr>])"
proof -
  let ?r = "\<lparr>r_student_id = JNum 1, r_status = JStr ''absent''\<rparr>"
  have h1: "schema_ok demo_marked" by code_simp
  have h2: "commitAttendance (Some seed_teacher) (JStr ''1'') (Some [?r]) 9 demo_marked
              = ((201, ''Attendance saved successfully''), demo_remarked)"
    by code_simp
  have h3: "parseInt (JStr ''1'') = Some 1" by code_simp
  have h4: "?r \<in> set [?r]" by simp
  have h5: "parseInt (r_student_id ?r) = Some 1" by code_simp
  have h6: "(0::int) < 1" by simp
  have old: "key_rows demo_marked 1 1
               = [\<lparr>a_id = 1, a_session_id = 1, a_student_id = 1, a_status = ''present'',
                   a_marked_at = 7\<rparr>]"
    by code_simp
  have low: "toLowerCase (String (r_status ?r)) = ''absent''" by code_simp
  from commit_upsert_single_record[OF h1 h2 h3 h4 h5 h6]
  obtain row where row: "key_rows demo_remarked 1 1 = [row]"
    "a_status row = toLowerCase (String (r_status ?r))"
    "case key_rows demo_marked 1 1 of [] \<Rightarrow> a_marked_at row = 9
     | old # olds \<Rightarrow> row = old\<lparr>a_status := a_status row\<rparr>"
    "\<forall>calls. \<exists>st. key_rows (run_calls demo_remarked calls) 1 1 = [row\<lparr>a_status := st\<rparr>]"
    by blast
  from row(3) have "row = \<lparr>a_id = 1, a_session_id = 1, a_student_id = 1, a_status = ''present'',
                             a_marked_at = 7\<rparr>\<lparr>a_status := a_status row\<rparr>"
    unfolding old by simp
  then have "a_marked_at row
               = a_marked_at (\<lparr>a_id = 1, a_session_id = 1, a_student_id = 1,
                               a_status = ''present'', a_marked_at = 7\<rparr>\<lparr>a_status := a_status row\<rparr>)"
    by simp
  then have "a_marked_at row = 7" by simp
  with row(1,2,4) low show ?thesis by auto
qed

section \<open>The class summary\<close>

lemma left_rows_nonempty: "left_rows on rs l \<noteq> []"
  by (simp add: left_rows_def split: list.splits)

lemma fst_left_rows: "y \<in> set (left_rows on rs l) \<Longrightarrow> fst y = l"
  by (auto simp: left_rows_def split: list.splits)

lemma left_rows_single:
  "length (filter (on l) rs) \<le> Suc 0 \<Longrightarrow> map fst (left_rows on rs l) = [l]"
  by (cases "filter (on l) rs") (auto simp: left_rows_def)

lemma map_fst_left_join:
  "(\<And>l. l \<in> set ls \<Longrightarrow> length (filter (on l) rs) \<le> Suc 0) \<Longrightarrow>
   map fst (left_join on ls rs) = ls"
proof (induction ls)
  case Nil
  then show ?case by (simp add: left_join_def)
next
  case (Cons l ls)
  have "map fst (left_join on (l # ls) rs)
          = map fst (left_rows on rs l) @ map fst (left_join on ls rs)"
    by (simp add: left_join_def)
  with Cons show ?case by (simp add: left_rows_single)
qed

lemma left_join_blocks:
  "left_join on2 (left_join on1 xs rs1) rs2
     = concat (map (\<lambda>x. left_join on2 (left_rows on1 rs1 x) rs2) xs)"
  by (induction xs) (simp_all add: left_join_def)

lemma filter_concat_blocks:
  "(\<And>x y. x \<in> set xs \<Longrightarrow> y \<in> set (g x) \<Longrightarrow> P y = Q x) \<Longrightarrow>
   filter P (concat (map g xs)) = concat (map g (filter Q xs))"
proof (induction xs)
  case Nil
  then show ?case by simp
next
  case (Cons x xs)
  have "filter P (g x) = (if Q x then g x else [])"
    using Cons.prems[of x] by (auto simp: filter_empty_conv filter_id_conv)
  with Cons show ?case by simp
qed

lemma remdups_replicate_block:
  "a \<notin> set zs \<Longrightarrow> remdups (replicate (Suc n) a @ zs) = a # remdups zs"
  by (induction n) auto

lemma map_const_block: "(\<And>y. y \<in> set ys \<Longrightarrow> key y = a) \<Longrightarrow> map key ys = replicate (length ys) a"
  by (induction ys) auto

lemma remdups_blocks:
  assumes "distinct (map f xs)"
    and "\<And>x. x \<in> set xs \<Longrightarrow> g x \<noteq> []"
    and "\<And>x y. x \<in> set xs \<Longrightarrow> y \<in> set (g x) \<Longrightarrow> key y = f x"
  shows "remdups (map key (concat (map g xs))) = map f xs"
  using assms
proof (induction xs)
  case Nil
  then show ?case by simp
next
  case (Cons x xs)
  have blk: "map key (g x) = replicate (length (g x)) (f x)"
    by (rule map_const_block) (simp add: Cons.prems(3))
  obtain n where n: "length (g x) = Suc n"
    using Cons.prems(2)[of x] by (cases "g x") auto
  have "set (map key (concat (map g xs))) \<subseteq> f ` set xs"
    using Cons.prems(3) by auto
  moreover have "f x \<notin> f ` set xs" using Cons.prems(1) by simp
  ultimately have notin: "f x \<notin> set (map key (concat (map g xs)))" by blast
  have ih: "remdups (map key (concat (map g xs))) = map f xs"
    using Cons.IH Cons.prems by simp
  show ?case
    using remdups_replicate_block[OF notin, of n] blk n ih by simp
qed

lemma filter_eq_distinct:
  "distinct xs \<Longrightarrow> x \<in> set xs \<Longrightarrow> filter (\<lambda>y. y = x) xs = [x]"
proof (induction xs)
  case Nil
  then show ?case by simp
next
  case (Cons z zs)
  show ?case
  proof (cases "z = x")
    case True
    with Cons.prems have "\<forall>y \<in> set zs. y \<noteq> x" by auto
    then have "filter (\<lambda>y. y = x) zs = []" by (simp add: filter_empty_conv)
    with True show ?thesis by simp
  next
    case False
    with Cons show ?thesis by simp
  qed
qed

lemma filter_key_block:
  assumes "distinct (map f xs)" and "x \<in> set xs"
    and "\<And>x y. x \<in> set xs \<Longrightarrow> y \<in> set (g x) \<Longrightarrow> key y = f x"
  shows "filter (\<lambda>y. key y = f x) (concat (map g xs)) = g x"
proof -
  have "filter (\<lambda>y. key y = f x) (concat (map g xs))
          = concat (map g (filter (\<lambda>x'. f x' = f x) xs))"
    by (rule filter_concat_blocks) (simp add: assms(3))
  moreover have "filter (\<lambda>x'. f x' = f x) xs = [x]"
  proof -
    have "filter (\<lambda>x'. f x' = f x) xs = filter (\<lambda>x'. x' = x) xs"
      using assms(1,2) by (intro filter_cong) (auto simp: distinct_map inj_on_def)
    moreover have "distinct xs" using assms(1) by (simp add: distinct_map)
    ultimately show ?thesis using assms(2) by (simp add: filter_eq_distinct)
  qed
  ultimately show ?thesis by simp
qed

lemma group_by_blocks:
  assumes "distinct (map f xs)"
    and "\<And>x. x \<in> set xs \<Longrightarrow> g x \<noteq> []"
    and "\<And>x y. x \<in> set xs \<Longrightarrow> y \<in> set (g x) \<Longrightarrow> key y = f x"
  shows "group_by key (concat (map g xs)) = map (\<lambda>x. (f x, g x)) xs"
proof -
  have "group_by key (concat (map g xs))
          = map (\<lambda>x. (f x, filter (\<lambda>y. key y = f x) (concat (map g xs)))) xs"
    by (simp add: group_by_def remdups_blocks[OF assms] comp_def)
  also have "\<dots> = map (\<lambda>x. (f x, g x)) xs"
    by (rule map_cong) (simp_all add: filter_key_block[OF assms(1) _ assms(3)])
  finally show ?thesis .
qed


lemma left_join_member: "y \<in> set (left_join on ls rs) \<Longrightarrow> fst y \<in> set ls"
  by (auto simp: left_join_def dest: fst_left_rows)

lemma left_join_nonempty: "ls \<noteq> [] \<Longrightarrow> left_join on ls rs \<noteq> []"
  by (cases ls) (simp_all add: left_join_def left_rows_nonempty)

lemma filter_conj_le1:
  assumes "distinct (map f xs)"
  shows "length (filter (\<lambda>x. f x = k \<and> Q x) xs) \<le> Suc 0"
proof -
  have "length (filter (\<lambda>x. f x = k \<and> Q x) xs) \<le> length (filter (\<lambda>x. f x = k) xs)"
    by (induction xs) auto
  with filter_key_le1[OF assms, of k] show ?thesis by simp
qed

lemma map_snd_left_rows:
  "map snd (left_rows on rs l)
     = (if filter (on l) rs = [] then [None] else map Some (filter (on l) rs))"
  by (cases "filter (on l) rs") (simp_all add: left_rows_def comp_def)

lemma distinct_sessions_of_student:
  assumes "distinct (map attendance_key (attendance db))"
  shows "distinct (map a_session_id (attendance_of db stid))"
proof -
  have d: "distinct (map attendance_key (attendance_of db stid))"
    unfolding attendance_of_def using assms by (rule distinct_map_filter)
  have "map attendance_key (attendance_of db stid)
          = map (\<lambda>a. (a_session_id a, stid)) (attendance_of db stid)"
    by (rule map_cong) (auto simp: attendance_of_def attendance_key_def)
  with d have "distinct (map (\<lambda>a. (a_session_id a, stid)) (attendance_of db stid))" by simp
  then show ?thesis
    by (auto simp: distinct_map inj_on_def)
qed

lemma count_distinct_Some:
  "distinct vs \<Longrightarrow> count_distinct (map Some vs) = int (length vs)"
proof -
  assume d: "distinct vs"
  have "filter (\<lambda>v. v \<noteq> None) (map Some vs) = map Some vs"
    by (simp add: filter_id_conv)
  moreover have "distinct (map Some vs)" using d by (simp add: distinct_map)
  ultimately show ?thesis by (simp add: count_distinct_def distinct_remdups_id)
qed

lemma sum_present_flag:
  "sum_list (map (present_flag \<circ> Some) as)
     = int (length (filter (\<lambda>a. a_status a = ''present'') as))"
  by (induction as) (simp_all add: present_flag_def)


lemma student_block_attendance:
  assumes "distinct (map sess_id (sessions db))"
  shows "map fst
           (left_join
              (\<lambda>(st, a) sess. case a of None \<Rightarrow> False
                 | Some r \<Rightarrow> sess_id sess = a_session_id r \<and> sess_class_id sess = st_class_id st)
              (left_rows (\<lambda>st a. a_student_id a = st_id st) (attendance db) (st :: student_row))
              (sessions db))
         = left_rows (\<lambda>st a. a_student_id a = st_id st) (attendance db) st"
proof (rule map_fst_left_join)
  fix l :: "student_row \<times> attendance_row option"
  obtain st' a where l: "l = (st', a)" by (cases l) auto
  show "length (filter
          ((\<lambda>(st, a) sess. case a of None \<Rightarrow> False
              | Some r \<Rightarrow> sess_id sess = a_session_id r \<and> sess_class_id sess = st_class_id st) l)
          (sessions db)) \<le> Suc 0"
  proof (cases a)
    case None
    with l show ?thesis by simp
  next
    case (Some r)
    with l filter_conj_le1[OF assms, of "a_session_id r" "\<lambda>s. sess_class_id s = st_class_id st'"]
    show ?thesis by simp
  qed
qed

lemma student_block_summary:
  assumes "schema_ok db"
    and g: "g = left_join
              (\<lambda>(st, a) sess. case a of None \<Rightarrow> False
                 | Some r \<Rightarrow> sess_id sess = a_session_id r \<and> sess_class_id sess = st_class_id st)
              (left_rows (\<lambda>st a. a_student_id a = st_id st) (attendance db) (st :: student_row))
              (sessions db)"
  shows "count_distinct (map (\<lambda>((st, a), sess). map_option a_session_id a) g)
           = int (length (attendance_of db (st_id st)))"
    and "sum_list (map (\<lambda>((st, a), sess). present_flag a) g)
           = int (length (filter (\<lambda>a. a_status a = ''present'') (attendance_of db (st_id st))))"
proof -
  from assms(1) have ds: "distinct (map sess_id (sessions db))"
    and da: "distinct (map attendance_key (attendance db))"
    by (simp_all add: schema_ok_def)
  have as: "map snd (map fst g)
              = (if attendance_of db (st_id st) = [] then [None]
                 else map Some (attendance_of db (st_id st)))"
    unfolding g student_block_attendance[OF ds] map_snd_left_rows attendance_of_def by simp
  have c1: "map (\<lambda>((st, a), sess). map_option a_session_id a) g
              = map (map_option a_session_id) (map snd (map fst g))"
    by (simp add: comp_def case_prod_unfold)
  have c2: "map (\<lambda>((st, a), sess). present_flag a) g = map present_flag (map snd (map fst g))"
    by (simp add: comp_def case_prod_unfold)
  show "count_distinct (map (\<lambda>((st, a), sess). map_option a_session_id a) g)
          = int (length (attendance_of db (st_id st)))"
  proof (cases "attendance_of db (st_id st) = []")
    case True
    then show ?thesis unfolding c1 as by (simp add: count_distinct_def)
  next
    case False
    have "map (map_option a_session_id) (map Some (attendance_of db (st_id st)))
            = map Some (map a_session_id (attendance_of db (st_id st)))"
      by simp
    with False show ?thesis
      unfolding c1 as
      using count_distinct_Some[OF distinct_sessions_of_student[OF da, of "st_id st"]]
      by (simp add: comp_def)
  qed
  show "sum_list (map (\<lambda>((st, a), sess). present_flag a) g)
          = int (length (filter (\<lambda>a. a_status a = ''present'') (attendance_of db (st_id st))))"
  proof (cases "attendance_of db (st_id st) = []")
    case True
    then show ?thesis unfolding c2 as by (simp add: present_flag_def)
  next
    case False
    then show ?thesis unfolding c2 as by (simp add: sum_present_flag)
  qed
qed

lemma classSummary_eq:
  assumes "schema_ok db"
  shows "classSummary db classId
           = order_by name_asc
               (map (student_summary db)
                  (filter (\<lambda>st. st_class_id st = classId) (students db)))"
proof -
  let ?on1 = "\<lambda>st a. a_student_id a = st_id st"
  let ?on2 = "\<lambda>(st, a) sess. case a of None \<Rightarrow> False
                 | Some r \<Rightarrow> sess_id sess = a_session_id r \<and> sess_class_id sess = st_class_id st"
  let ?g = "\<lambda>st :: student_row. left_join ?on2 (left_rows ?on1 (attendance db) st) (sessions db)"
  let ?sel = "filter (\<lambda>st. st_class_id st = classId) (students db)"
  let ?key = "\<lambda>((st, a), sess). student_key st"
  let ?row = "\<lambda>(k, g).
                   \<lparr>student_id = fst k, student_name = fst (snd k), roll_number = snd (snd k),
                    total = count_distinct (map (\<lambda>((st, a), sess). map_option a_session_id a) g),
                    presents = sum_list (map (\<lambda>((st, a), sess). present_flag a) g),
                    absents = count_distinct (map (\<lambda>((st, a), sess). map_option a_session_id a) g)
                              - sum_list (map (\<lambda>((st, a), sess). present_flag a) g)\<rparr>"
  have owner: "fst (fst y) = st" if "y \<in> set (?g st)" for y st
    using left_join_member[OF that] fst_left_rows by fastforce
  have ne: "?g st \<noteq> []" for st
    by (rule left_join_nonempty) (rule left_rows_nonempty)
  have joined: "left_join ?on2 (left_join ?on1 (students db) (attendance db)) (sessions db)
                  = concat (map ?g (students db))"
    by (rule left_join_blocks)
  have selected: "filter (\<lambda>((st, a), sess). st_class_id st = classId) (concat (map ?g (students db)))
                    = concat (map ?g ?sel)"
    by (rule filter_concat_blocks) (use owner in \<open>auto simp: case_prod_unfold\<close>)
  from assms have "distinct (map st_id (students db))" by (simp add: schema_ok_def)
  then have "distinct (map st_id ?sel)" by (rule distinct_map_filter)
  then have dk: "distinct (map student_key ?sel)"
    by (auto simp: distinct_map inj_on_def student_key_def)
  have groups: "group_by ?key (concat (map ?g ?sel)) = map (\<lambda>st. (student_key st, ?g st)) ?sel"
    by (rule group_by_blocks[OF dk]) (use owner ne in \<open>auto simp: case_prod_unfold\<close>)
  have rows: "map ?row (map (\<lambda>st. (student_key st, ?g st)) ?sel) = map (student_summary db) ?sel"
  proof -
    have "?row (student_key st, ?g st) = student_summary db st" for st
      using student_block_summary[OF assms refl, of st]
      by (simp add: student_summary_def student_key_def Let_def)
    then show ?thesis by (simp add: comp_def)
  qed
  show ?thesis
    unfolding classSummary_def Let_def joined selected groups rows by (rule refl)
qed

lemma marked_sessions_card:
  assumes "schema_ok db" and "class_consistent db" and "st \<in> set (students db)"
  shows "card (marked_sessions db (st_class_id st) (st_id st))
           = length (attendance_of db (st_id st))"
proof -
  let ?as = "attendance_of db (st_id st)"
  let ?M = "marked_sessions db (st_class_id st) (st_id st)"
  from assms(1) have ds: "distinct (map sess_id (sessions db))"
    and da: "distinct (map attendance_key (attendance db))"
    and fk: "\<forall>a \<in> set (attendance db). a_session_id a \<in> sess_id ` set (sessions db)"
    by (simp_all add: schema_ok_def list_all_iff)
  from assms(2) have cc: "\<And>a s. a \<in> set (attendance db) \<Longrightarrow> s \<in> set (sessions db) \<Longrightarrow>
      a_student_id a = st_id st \<Longrightarrow> a_session_id a = sess_id s \<Longrightarrow>
      sess_class_id s = st_class_id st"
    using assms(3) by (auto simp: class_consistent_def list_all_iff)
  have img: "sess_id ` ?M = a_session_id ` set ?as"
  proof (rule set_eqI, rule iffI)
    fix k assume "k \<in> sess_id ` ?M"
    then obtain s a where "s \<in> set (sessions db)" "k = sess_id s" "a \<in> set (attendance db)"
      "a_session_id a = sess_id s" "a_student_id a = st_id st"
      by (auto simp: marked_sessions_def)
    then show "k \<in> a_session_id ` set ?as"
      by (auto simp: attendance_of_def image_iff)
  next
    fix k assume "k \<in> a_session_id ` set ?as"
    then obtain a where a: "a \<in> set (attendance db)" "a_student_id a = st_id st"
      "k = a_session_id a"
      by (auto simp: attendance_of_def)
    with fk obtain s where s: "s \<in> set (sessions db)" "sess_id s = a_session_id a" by auto
    with a cc[of a s] have "sess_class_id s = st_class_id st" by simp
    with a s have "s \<in> ?M" by (auto simp: marked_sessions_def)
    with a s show "k \<in> sess_id ` ?M" by (metis imageI)
  qed
  have "inj_on sess_id (set (sessions db))" using ds by (simp add: distinct_map)
  then have "inj_on sess_id ?M"
    by (rule inj_on_subset) (auto simp: marked_sessions_def)
  then have "card ?M = card (sess_id ` ?M)" by (simp add: card_image)
  also have "\<dots> = card (set (map a_session_id ?as))" by (simp add: img)
  also have "\<dots> = length (map a_session_id ?as)"
    by (rule distinct_card) (rule distinct_sessions_of_student[OF da])
  finally show ?thesis by simp
qed

lemma name_asc_sorted: "sorted_wrt name_asc (order_by name_asc rows)"
proof (rule sorted_wrt_order_by)
  show "name_asc a b \<or> name_asc b a" for a b
    unfolding name_asc_def by (rule linorder_linear)
  show "name_asc a b \<Longrightarrow> name_asc b c \<Longrightarrow> name_asc a c" for a b c
    unfolding name_asc_def by (rule order_trans)
qed

lemma student_summary_bounds:
  "presents (student_summary db st) + absents (student_summary db st)
     = total (student_summary db st)
   \<and> 0 \<le> presents (student_summary db st)
   \<and> presents (student_summary db st) \<le> total (student_summary db st)"
  by (simp add: student_summary_def Let_def)

text \<open>
  C4. The export query counts every session of the class (\<open>COUNT(sess.id)\<close> over
  students joined with sessions), the summary query only the sessions with an attendance
  row of the student: for class 1 with one session and nothing marked, the summary gives
  total 0 and absents 0 for each student, the export total 1 and absents 1.
\<close>

theorem class_summary_export_differs_example:
  "summaryByClass (Some seed_teacher) (JStr ''1'') demo_store
     = Inr [\<lparr>student_id = 1, student_name = ''aditya'', roll_number = Some ''123'',
             total = 0, presents = 0, absents = 0\<rparr>,
            \<lparr>student_id = 2, student_name = ''bela'', roll_number = None,
             total = 0, presents = 0, absents = 0\<rparr>]
   \<and> exportSummaryByClass (Some seed_teacher) (JStr ''1'') (JStr ''csv'') demo_store
     = Inr (SendCsv
            [\<lparr>student_id = 1, student_name = ''aditya'', roll_number = Some ''123'',
              total = 1, presents = 0, absents = 1\<rparr>,
             \<lparr>student_id = 2, student_name = ''bela'', roll_number = None,
              total = 1, presents = 0, absents = 1\<rparr>]
            ''class-1-summary'')"
  by code_simp

text \<open>
  C5. On a store that satisfies the schema's keys, every row of \<open>classSummary\<close> has
  presents + absents = total and 0 \<le> presents \<le> total; and when no student of the class
  has an attendance row, there is one row per student of the class, each with total,
  presents and absents 0.
\<close>

theorem classSummary_rows_consistent:
  assumes "schema_ok db"
  shows "(\<forall>r \<in> set (classSummary db classId).
            presents r + absents r = total r \<and> 0 \<le> presents r \<and> presents r \<le> total r)
       \<and> ((\<forall>st \<in> set (students db). st_class_id st = classId
                \<longrightarrow> attendance_of db (st_id st) = [])
            \<longrightarrow> length (classSummary db classId)
                  = length (filter (\<lambda>st. st_class_id st = classId) (students db))
              \<and> (\<forall>r \<in> set (classSummary db classId).
                    total r = 0 \<and> presents r = 0 \<and> absents r = 0))"
proof -
  let ?sel = "filter (\<lambda>st. st_class_id st = classId) (students db)"
  have rows: "set (classSummary db classId) = student_summary db ` set ?sel"
    and len: "length (classSummary db classId) = length ?sel"
    by (simp_all add: classSummary_eq[OF assms] set_order_by length_order_by)
  have "\<forall>r \<in> set (classSummary db classId).
          presents r + absents r = total r \<and> 0 \<le> presents r \<and> presents r \<le> total r"
    unfolding rows using student_summary_bounds by blast
  moreover have "\<forall>r \<in> set (classSummary db classId).
                   total r = 0 \<and> presents r = 0 \<and> absents r = 0"
    if "\<forall>st \<in> set (students db). st_class_id st = classId \<longrightarrow> attendance_of db (st_id st) = []"
    unfolding rows using that by (auto simp: student_summary_def Let_def)
  ultimately show ?thesis using len by blast
qed

theorem classSummary_rows_consistent_witness:
  "list_all (\<lambda>r. presents r + absents r = total r \<and> 0 \<le> presents r \<and> presents r \<le> total r)
     (classSummary demo_marked 1)
   \<and> map presents (classSummary demo_marked 1) = [1, 0]
   \<and> length (classSummary demo_store 1) = 2
   \<and> list_all (\<lambda>r. total r = 0 \<and> presents r = 0 \<and> absents r = 0) (classSummary demo_store 1)"
proof -
  have h1: "schema_ok demo_marked" by code_simp
  have h2: "schema_ok demo_store" by code_simp
  have h3: "\<forall>st \<in> set (students demo_store). st_class_id st = 1
              \<longrightarrow> attendance_of demo_store (st_id st) = []"
    by (simp add: demo_store_def seed_store_def attendance_of_def)
  have h4: "length (filter (\<lambda>st. st_class_id st = 1) (students demo_store)) = 2"
    by (simp add: demo_store_def seed_store_def)
  have v: "map presents (classSummary demo_marked 1) = [1, 0]" by code_simp
  from classSummary_rows_consistent[OF h1, of 1] classSummary_rows_consistent[OF h2, of 1] h3 h4 v
  show ?thesis by (simp add: list_all_iff)
qed

text \<open>
  C6. On a store that satisfies the schema's keys and in which attendance joins students
  and sessions of one class only, \<open>classSummary\<close> has one row per student of the class
  (carrying the student's id, name and roll number), the rows are sorted by student name
  ascending, each total is the number of sessions of the class for which the student has
  an attendance row, and absents = total - presents.
\<close>

theorem classSummary_rows:
  assumes "schema_ok db" and "class_consistent db"
  shows "mset (map (\<lambda>r. (student_id r, student_name r, roll_number r)) (classSummary db classId))
           = mset (map student_key (filter (\<lambda>st. st_class_id st = classId) (students db)))
       \<and> sorted (map student_name (classSummary db classId))
       \<and> (\<forall>r \<in> set (classSummary db classId).
             total r = int (card (marked_sessions db classId (student_id r)))
             \<and> absents r = total r - presents r)"
proof -
  let ?sel = "filter (\<lambda>st. st_class_id st = classId) (students db)"
  have eq: "classSummary db classId = order_by name_asc (map (student_summary db) ?sel)"
    by (rule classSummary_eq[OF assms(1)])
  have "mset (classSummary db classId) = mset (map (student_summary db) ?sel)"
    by (simp add: eq mset_order_by)
  then have "mset (map (\<lambda>r. (student_id r, student_name r, roll_number r)) (classSummary db classId))
               = mset (map (\<lambda>r. (student_id r, student_name r, roll_number r))
                        (map (student_summary db) ?sel))"
    by (metis mset_map)
  also have "\<dots> = mset (map student_key ?sel)"
    by (rule arg_cong[where f = mset])
      (simp add: student_summary_def student_key_def Let_def)
  finally have one: "mset (map (\<lambda>r. (student_id r, student_name r, roll_number r))
                             (classSummary db classId)) = mset (map student_key ?sel)" .
  have srt: "sorted (map student_name (classSummary db classId))"
    using name_asc_sorted[of "map (student_summary db) ?sel"]
    by (simp add: eq sorted_map name_asc_def[abs_def])
  have tot: "total r = int (card (marked_sessions db classId (student_id r)))
               \<and> absents r = total r - presents r"
    if "r \<in> set (classSummary db classId)" for r
  proof -
    from that obtain st where st: "st \<in> set (students db)" "st_class_id st = classId"
      "r = student_summary db st"
      by (auto simp: eq set_order_by)
    from marked_sessions_card[OF assms st(1)] st(2,3) show ?thesis
      by (simp add: student_summary_def Let_def)
  qed
  from one srt tot show ?thesis by blast
qed

theorem classSummary_rows_witness:
  "mset (map (\<lambda>r. (student_id r, student_name r, roll_number r)) (classSummary demo_marked 1))
     = mset (map student_key (filter (\<lambda>st. st_class_id st = 1) (students demo_marked)))
   \<and> sorted (map student_name (classSummary demo_marked 1))
   \<and> list_all (\<lambda>r. total r = int (card (marked_sessions demo_marked 1 (student_id r)))
                   \<and> absents r = total r - presents r)
        (classSummary demo_marked 1)
   \<and> map student_name (classSummary demo_marked 1) = [''aditya'', ''bela'']
   \<and> map total (classSummary demo_marked 1) = [1, 1]"
proof -
  have h1: "schema_ok demo_marked" by code_simp
  have h2: "class_consistent demo_marked" by code_simp
  have v: "map student_name (classSummary demo_marked 1) = [''aditya'', ''bela'']"
    "map total (classSummary demo_marked 1) = [1, 1]"
    by code_simp+
  from classSummary_rows[OF h1 h2, of 1] v
  show ?thesis by (simp add: list_all_iff)
qed

section \<open>The constraints are kept by the commit handler\<close>

text \<open>
  The hypotheses of the summary theorems hold in the seed store and are kept by every call
  of the commit handler, so they hold in every store reached by marking attendance.
\<close>

lemma seed_store_constraints: "schema_ok seed_store \<and> class_consistent seed_store"
  by (simp add: schema_ok_def class_consistent_def seed_store_def)

lemma schema_ok_keys:
  "schema_ok db =
     (distinct (map st_id (students db)) \<and> distinct (map sess_id (sessions db))
      \<and> distinct (map attendance_key (attendance db))
      \<and> (\<forall>k \<in> set (map attendance_key (attendance db)).
            fst k \<in> set (map sess_id (sessions db)) \<and> snd k \<in> set (map st_id (students db))))"
  by (auto simp: schema_ok_def list_all_iff attendance_key_def)

lemma class_consistent_keys:
  "class_consistent db =
     (\<forall>k \<in> set (map attendance_key (attendance db)).
        \<forall>st \<in> set (students db). \<forall>s \<in> set (sessions db).
          snd k = st_id st \<and> fst k = sess_id s \<longrightarrow> sess_class_id s = st_class_id st)"
  by (auto simp: class_consistent_def list_all_iff attendance_key_def)

lemma upsert_tables:
  "students (upsert now sid db p) = students db"
  "sessions (upsert now sid db p) = sessions db"
  "classes (upsert now sid db p) = classes db"
  by (simp_all add: upsert_def Let_def)

lemma upsert_keys:
  "map attendance_key (attendance (upsert now sid db (stid, st)))
     = (if (sid, stid) \<in> set (map attendance_key (attendance db))
        then map attendance_key (attendance db)
        else map attendance_key (attendance db) @ [(sid, stid)])"
proof (cases "\<exists>a \<in> set (attendance db). same_key sid stid a")
  case True
  then have "(sid, stid) \<in> set (map attendance_key (attendance db))"
    by (force simp: same_key_attendance_key)
  moreover have "map attendance_key
                   (map (\<lambda>a. if same_key sid stid a then a\<lparr>a_status := st\<rparr> else a) (attendance db))
                 = map attendance_key (attendance db)"
    by (simp add: attendance_key_def comp_def if_distrib[of attendance_key] cong: if_cong)
  ultimately show ?thesis using True by (simp add: upsert_def Let_def)
next
  case False
  then have "(sid, stid) \<notin> set (map attendance_key (attendance db))"
    by (auto simp: same_key_attendance_key)
  with False show ?thesis by (simp add: upsert_def Let_def attendance_key_def)
qed

lemma upsert_preserves_constraints:
  assumes "schema_ok db" and "class_consistent db"
    and "sid \<in> set (map sess_id (sessions db))" and "stid \<in> set (map st_id (students db))"
    and "\<And>st s. st \<in> set (students db) \<Longrightarrow> s \<in> set (sessions db) \<Longrightarrow> st_id st = stid \<Longrightarrow>
           sess_id s = sid \<Longrightarrow> sess_class_id s = st_class_id st"
  shows "schema_ok (upsert now sid db (stid, st)) \<and> class_consistent (upsert now sid db (stid, st))"
  using assms
  unfolding schema_ok_keys class_consistent_keys upsert_tables upsert_keys
  by (auto split: if_splits)

lemma foldl_upsert_preserves_constraints:
  assumes "sid \<in> set (map sess_id (sessions db))"
    and "fst ` set ps \<subseteq> set (map st_id (students db))"
    and "\<And>st s. st \<in> set (students db) \<Longrightarrow> s \<in> set (sessions db) \<Longrightarrow> st_id st \<in> fst ` set ps \<Longrightarrow>
           sess_id s = sid \<Longrightarrow> sess_class_id s = st_class_id st"
  shows "schema_ok db \<Longrightarrow> class_consistent db \<Longrightarrow>
         schema_ok (foldl (upsert now sid) db ps) \<and> class_consistent (foldl (upsert now sid) db ps)"
  using assms
proof (induction ps arbitrary: db)
  case Nil
  then show ?case by simp
next
  case (Cons p ps)
  obtain stid st where p: "p = (stid, st)" by (cases p) auto
  have step: "schema_ok (upsert now sid db p) \<and> class_consistent (upsert now sid db p)"
    unfolding p
  proof (rule upsert_preserves_constraints[OF Cons.prems(1,2,3)])
    show "stid \<in> set (map st_id (students db))" using Cons.prems(4) p by auto
    show "sess_class_id s = st_class_id st'"
      if "st' \<in> set (students db)" "s \<in> set (sessions db)" "st_id st' = stid" "sess_id s = sid"
      for st' s
      using Cons.prems(5)[of st' s] that p by simp
  qed
  have "schema_ok (foldl (upsert now sid) (upsert now sid db p) ps)
          \<and> class_consistent (foldl (upsert now sid) (upsert now sid db p) ps)"
  proof (rule Cons.IH)
    show "schema_ok (upsert now sid db p)" "class_consistent (upsert now sid db p)"
      using step by simp_all
    show "sid \<in> set (map sess_id (sessions (upsert now sid db p)))"
      using Cons.prems(3) by (simp add: upsert_tables)
    show "fst ` set ps \<subseteq> set (map st_id (students (upsert now sid db p)))"
      using Cons.prems(4) by (simp add: upsert_tables)
    show "sess_class_id s = st_class_id st'"
      if "st' \<in> set (students (upsert now sid db p))" "s \<in> set (sessions (upsert now sid db p))"
        "st_id st' \<in> fst ` set ps" "sess_id s = sid" for st' s
      using Cons.prems(5)[of st' s] that by (simp add: upsert_tables)
  qed
  then show ?case by simp
qed

lemma checkResult_pass_members:
  assumes "distinct (map st_id (students db))"
    and "length (checkResult db ids c) = length ids"
  shows "set ids \<subseteq> set (map st_id (filter (\<lambda>st. st_class_id st = c) (students db)))"
proof (rule ccontr)
  assume "\<not> ?thesis"
  then obtain x where "x \<in> set ids"
    "x \<notin> set (map st_id (filter (\<lambda>st. st_class_id st = c) (students db)))" by blast
  from checkResult_foreign[OF assms(1) this] assms(2) show False by simp
qed

lemma commit_preserves_constraints:
  assumes "schema_ok db" and "class_consistent db"
  shows "schema_ok (snd (commitAttendance req_user session_id records_opt now db))
       \<and> class_consistent (snd (commitAttendance req_user session_id records_opt now db))"
proof (cases "\<exists>records msg db1. records_opt = Some records
                \<and> commitAttendance req_user session_id records_opt now db = ((201, msg), db1)")
  case False
  then have "snd (commitAttendance req_user session_id records_opt now db) = db"
    by (auto simp: commitAttendance_def Let_def split: option.splits list.splits)
  with assms show ?thesis by simp
next
  case True
  then obtain records msg db1 where r: "records_opt = Some records"
    and ok: "commitAttendance req_user session_id (Some records) now db = ((201, msg), db1)"
    by auto
  from commit_success[OF ok] obtain sid sess others where
    f: "filter (\<lambda>s. sess_id s = sid) (sessions db) = sess # others"
    and inv: "invalidRecords_of records = []"
    and chk: "length (checkResult db (studentIds_of records) (sess_class_id sess))
                = length (studentIds_of records)"
    and db1: "db1 = foldl (upsert now sid) db (map upsert_params (validRecords_of records))"
    by (elim exE conjE) (rule that)
  from assms(1) have pk: "distinct (map st_id (students db))"
    and sk: "distinct (map sess_id (sessions db))"
    by (simp_all add: schema_ok_def)
  let ?ps = "map upsert_params (validRecords_of records)"
  have ids: "fst ` set ?ps = set (studentIds_of records)"
    using validRecords_ids[OF inv] by (metis set_map)
  have mem: "set (studentIds_of records)
               \<subseteq> set (map st_id (filter (\<lambda>st. st_class_id st = sess_class_id sess) (students db)))"
    using pk chk by (rule checkResult_pass_members)
  have "sess \<in> set (filter (\<lambda>s. sess_id s = sid) (sessions db))" using f by simp
  then have sess: "sess \<in> set (sessions db)" "sess_id sess = sid" by simp_all
  have only: "s = sess" if "s \<in> set (sessions db)" "sess_id s = sid" for s
    using sk sess that by (auto simp: distinct_map inj_on_def)
  have "schema_ok (foldl (upsert now sid) db ?ps) \<and> class_consistent (foldl (upsert now sid) db ?ps)"
  proof (rule foldl_upsert_preserves_constraints[OF _ _ _ assms])
    show "sid \<in> set (map sess_id (sessions db))" using sess by auto
    show "fst ` set ?ps \<subseteq> set (map st_id (students db))" using ids mem by auto
    show "sess_class_id s = st_class_id st"
      if "st \<in> set (students db)" "s \<in> set (sessions db)" "st_id st \<in> fst ` set ?ps"
        "sess_id s = sid" for st s
    proof -
      from that(3) ids mem obtain st' where st': "st' \<in> set (students db)"
        "st_class_id st' = sess_class_id sess" "st_id st' = st_id st" by auto
      with pk that(1) have "st' = st" by (auto simp: distinct_map inj_on_def)
      with st' only[OF that(2,4)] show ?thesis by simp
    qed
  qed
  with ok r db1 show ?thesis by simp
qed

lemma run_calls_preserves_constraints:
  "schema_ok db \<Longrightarrow> class_consistent db \<Longrightarrow>
   schema_ok (run_calls db calls) \<and> class_consistent (run_calls db calls)"
proof (induction calls arbitrary: db)
  case Nil
  then show ?case by (simp add: run_calls_def)
next
  case (Cons c calls)
  obtain u s r t where c: "c = (u, s, r, t)" by (cases c) auto
  from commit_preserves_constraints[OF Cons.prems, of u s r t]
  have "schema_ok (run_call db c)" "class_consistent (run_call db c)" using c by simp_all
  from Cons.IH[OF this] show ?case by (simp add: run_calls_def)
qed

end
